theory Spec2Isabelle
  imports Complex_Main "HOL-Library.Log_Nat"
begin

section \<open>URL Download App: the model\<close>

text \<open>
  The program is \<^verbatim>\<open>main.py\<close>: a window with two text fields, a progress bar and a download
  button. Its logic is \<^verbatim>\<open>App.extract_media_url\<close>, \<^verbatim>\<open>App.has_extension\<close>,
  \<^verbatim>\<open>App.download\<close> and \<^verbatim>\<open>App.handle_progress\<close>. They call into the Python standard
  library (\<^verbatim>\<open>urllib.parse\<close>, \<^verbatim>\<open>pathlib\<close>, \<^verbatim>\<open>urllib.request\<close>); the library
  functions are modelled after CPython 3.11 with the POSIX path flavour.

  Python strings are modelled as \<^typ>\<open>string\<close>; a character stands for the code point of
  the same number, so the model speaks of strings over code points 0 to 255. Python integers
  are \<^typ>\<open>int\<close>.
\<close>

subsection \<open>Exceptions\<close>

text \<open>
  An exception is its class and its \<^verbatim>\<open>str(e)\<close>. \<open>URLError\<close> stands for
  \<^verbatim>\<open>urllib.error.URLError\<close> and its subclasses (\<^verbatim>\<open>HTTPError\<close>,
  \<^verbatim>\<open>ContentTooShortError\<close>): what \<^verbatim>\<open>urlopen\<close> raises when the request cannot be sent
  (unknown host, connection refused, TLS failure) or the server answers with an error
  status. \<open>ConnectionResetError\<close> is the built-in class of that name, with its subclass
  \<^verbatim>\<open>http.client.RemoteDisconnected\<close>: the peer reset or closed the connection. It is a
  subclass of \<^verbatim>\<open>OSError\<close> and not of \<^verbatim>\<open>URLError\<close>, and \<^verbatim>\<open>urllib\<close> passes it on as it
  is when it happens while the response is read. \<open>OtherException\<close> stands for an instance
  of any further class derived from \<^verbatim>\<open>Exception\<close> (an \<^verbatim>\<open>OSError\<close> of the file system,
  a \<^verbatim>\<open>ValueError\<close> for an unknown URL type). For the two errors of \<^verbatim>\<open>with_suffix\<close> the
  text is the format string of the raise statement, with \<^verbatim>\<open>%r\<close> left in place. What is
  raised outside \<^verbatim>\<open>Exception\<close> (\<^verbatim>\<open>KeyboardInterrupt\<close>, \<^verbatim>\<open>SystemExit\<close>) is no failure of
  a transfer and is not modelled.
\<close>

datatype exn =
    URLError string
  | ConnectionResetError string
  | ValueError string
  | IndexError string
  | ZeroDivisionError string
  | OverflowError string
  | OtherException string

fun exn_str :: "exn \<Rightarrow> string" where
  "exn_str (URLError m) = m"
| "exn_str (ConnectionResetError m) = m"
| "exn_str (ValueError m) = m"
| "exn_str (IndexError m) = m"
| "exn_str (ZeroDivisionError m) = m"
| "exn_str (OverflowError m) = m"
| "exn_str (OtherException m) = m"


subsection \<open>True division of integers and truncation of floats\<close>

text \<open>
  \<^verbatim>\<open>read * 100 / total_size\<close> divides two Python integers with \<^verbatim>\<open>/\<close>: the result is
  the IEEE 754 double nearest to the exact quotient (ties to even), \<^verbatim>\<open>OverflowError\<close> if
  that is \<open>2 ^ 1024\<close> or more in magnitude, \<^verbatim>\<open>ZeroDivisionError\<close> for a zero divisor.
  A finite double is modelled exactly, as sign, integer significand \<open>m\<close> and exponent \<open>e\<close>,
  denoting \<open>m * 2 ^ e\<close>.
\<close>

datatype pyfloat = PyFloat bool int int

text \<open>The integer nearest to \<open>n / d\<close>, ties to the even one, for \<open>0 \<le> n\<close> and \<open>0 < d\<close>.\<close>

definition round_half_even :: "int \<Rightarrow> int \<Rightarrow> int" where
  "round_half_even n d =
     (let q = n div d; r = n mod d
      in if 2 * r < d then q
         else if d < 2 * r then q + 1
         else if even q then q else q + 1)"

text \<open>\<open>\<lfloor>log\<^sub>2 (a / b)\<rfloor>\<close> for positive \<open>a\<close> and \<open>b\<close>.\<close>

definition floor_log2_quot :: "int \<Rightarrow> int \<Rightarrow> int" where
  "floor_log2_quot a b =
     (let d = bitlen a - bitlen b
      in if b * 2 ^ nat d \<le> a * 2 ^ nat (- d) then d else d - 1)"

text \<open>
  The double nearest to \<open>a / b\<close> for positive \<open>a\<close> and \<open>b\<close>: 53 significant bits, and no
  exponent below \<open>- 1074\<close> (the subnormal range).
\<close>

definition nearest_double :: "int \<Rightarrow> int \<Rightarrow> int \<times> int" where
  "nearest_double a b =
     (let e = max (floor_log2_quot a b - 52) (- 1074)
      in (round_half_even (a * 2 ^ nat (- e)) (b * 2 ^ nat e), e))"

definition py_truediv :: "int \<Rightarrow> int \<Rightarrow> exn + pyfloat" where
  "py_truediv a b =
     (if b = 0 then Inl (ZeroDivisionError ''division by zero'')
      else if a = 0 then Inr (PyFloat (b < 0) 0 0)
      else case nearest_double \<bar>a\<bar> \<bar>b\<bar> of (m, e) \<Rightarrow>
        if 0 \<le> e \<and> 2 ^ 1024 \<le> m * 2 ^ nat e
        then Inl (OverflowError ''integer division result too large for a float'')
        else Inr (PyFloat ((a < 0) \<noteq> (b < 0)) m e))"

text \<open>\<^verbatim>\<open>int(x)\<close> of a finite float: truncation towards zero.\<close>

fun py_int :: "pyfloat \<Rightarrow> int" where
  "py_int (PyFloat s m e) =
     (let t = (if 0 \<le> e then m * 2 ^ nat e else m div 2 ^ nat (- e))
      in if s then - t else t)"

subsection \<open>The window\<close>

datatype dialog = Information string string | Warning string string

text \<open>A write to a widget: the text of a line edit, the value of the bar, a message box.\<close>

datatype ui_write =
    Url_setText string
  | Location_setText string
  | Progress_setValue int
  | Message_Box dialog

text \<open>
  The widgets the program reads and writes: the two line edits, the progress bar (its
  current value, and every value handed to \<^verbatim>\<open>setValue\<close> so far, oldest first) and the
  message boxes shown so far. \<open>writes\<close> keeps every write to a widget in the order in
  which the program made it, oldest first: it is what an onlooker of the window sees
  happen.
\<close>

record app =
  url_line_edit :: string
  location_line_edit :: string
  progress_bar :: int
  progress_calls :: "int list"
  dialogs :: "dialog list"
  writes :: "ui_write list"

definition setValue :: "int \<Rightarrow> app \<Rightarrow> app" where
  "setValue v st =
     st\<lparr>progress_bar := v, progress_calls := progress_calls st @ [v],
        writes := writes st @ [Progress_setValue v]\<rparr>"

definition message_box :: "dialog \<Rightarrow> app \<Rightarrow> app" where
  "message_box d st = st\<lparr>dialogs := dialogs st @ [d], writes := writes st @ [Message_Box d]\<rparr>"

definition url_setText :: "string \<Rightarrow> app \<Rightarrow> app" where
  "url_setText t st = st\<lparr>url_line_edit := t, writes := writes st @ [Url_setText t]\<rparr>"

definition location_setText :: "string \<Rightarrow> app \<Rightarrow> app" where
  "location_setText t st =
     st\<lparr>location_line_edit := t, writes := writes st @ [Location_setText t]\<rparr>"

subsection \<open>\<^verbatim>\<open>App.handle_progress\<close>\<close>

text \<open>
  Lines 125 to 127: the percentage computed when \<^verbatim>\<open>total_size > 0\<close>.
\<close>

definition percent_of :: "int \<Rightarrow> int \<Rightarrow> exn + int" where
  "percent_of read total_size =
     (case py_truediv (read * 100) total_size of
        Inl e \<Rightarrow> Inl e
      | Inr q \<Rightarrow>
          let percent = py_int q
          in Inr (if percent > 100 then 100 else percent))"

text \<open>
  The division is the only statement that can raise, and it comes before the first
  \<^verbatim>\<open>setValue\<close>: when \<open>handle_progress\<close> raises, the window is as it was. The calls of
  \<^verbatim>\<open>QApplication.processEvents\<close>, which let the window repaint, change none of the
  widgets below and are left out.
\<close>

definition handle_progress :: "int \<Rightarrow> int \<Rightarrow> int \<Rightarrow> app \<Rightarrow> exn + app" where
  "handle_progress block_number block_size total_size st =
     (let read = block_number * block_size
      in case (if total_size > 0
               then (case percent_of read total_size of
                       Inl e \<Rightarrow> Inl e
                     | Inr percent \<Rightarrow> Inr (setValue percent st))
               else Inr st) of
           Inl e \<Rightarrow> Inl e
         | Inr st1 \<Rightarrow>
             if read \<ge> total_size then Inr (setValue 100 st1) else Inr st1)"

subsection \<open>String operations of Python\<close>

text \<open>\<^verbatim>\<open>s.partition(c)\<close>: the text before the first \<open>c\<close> and the text after it.\<close>

definition before :: "char \<Rightarrow> string \<Rightarrow> string" where
  "before c s = takeWhile (\<lambda>x. x \<noteq> c) s"

definition after :: "char \<Rightarrow> string \<Rightarrow> string" where
  "after c s = drop 1 (dropWhile (\<lambda>x. x \<noteq> c) s)"

text \<open>\<^verbatim>\<open>s.split(c)\<close> for a separator of one character.\<close>

fun split_on :: "char \<Rightarrow> string \<Rightarrow> string list" where
  "split_on c [] = [[]]"
| "split_on c (x # xs) =
     (if x = c then [] # split_on c xs
      else case split_on c xs of [] \<Rightarrow> [[x]] | y # ys \<Rightarrow> (x # y) # ys)"


definition isascii :: "string \<Rightarrow> bool" where
  "isascii s = (\<forall>c \<in> set s. (of_char c :: nat) < 128)"

definition ascii_isalpha :: "char \<Rightarrow> bool" where
  "ascii_isalpha c =
     (let n = (of_char c :: nat) in (65 \<le> n \<and> n \<le> 90) \<or> (97 \<le> n \<and> n \<le> 122))"

definition ascii_lower :: "char \<Rightarrow> char" where
  "ascii_lower c =
     (let n = (of_char c :: nat) in if 65 \<le> n \<and> n \<le> 90 then char_of (n + 32) else c)"

subsection \<open>The library functions the program does not fix\<close>

text \<open>
  Four pieces of the standard library are parameters of the model, not definitions:
  \<^item> \<open>check_bracketed_host\<close>: the text of the \<^verbatim>\<open>ValueError\<close> that
    \<^verbatim>\<open>urllib.parse._check_bracketed_host\<close> raises for a bracketed host (it parses an IP
    address), \<open>None\<close> when it accepts the host;
  \<^item> \<open>checknetloc_nfkc\<close>: the same for the part of \<^verbatim>\<open>urllib.parse._checknetloc\<close> that
    normalises a netloc with a character beyond ASCII;
  \<^item> \<open>unquote_escapes\<close>: what \<^verbatim>\<open>urllib.parse.unquote\<close> returns for a string that
    contains a percent sign (percent escapes decoded as UTF-8);
  \<^item> \<open>urlretrieve\<close>: the transfer that \<^verbatim>\<open>urllib.request.urlretrieve\<close> performs for a URL
    and a destination file, see below.
  Every theorem holds for all values of the parameters.
\<close>

datatype posix_path = PosixPath (path_root: string) (path_parts: "string list")

text \<open>
  What a call of \<^verbatim>\<open>urlretrieve\<close> does, seen from its caller: the arguments of the calls of
  the report hook, in order, and the exception it ends with if no call of the hook raises
  (\<open>None\<close>: it returns). An exception raised by the hook leaves \<^verbatim>\<open>urlretrieve\<close> at once.
\<close>

record transfer =
  notifications :: "(int \<times> int \<times> int) list"
  raised :: "exn option"

record lib =
  check_bracketed_host :: "string \<Rightarrow> string option"
  checknetloc_nfkc :: "string \<Rightarrow> string option"
  unquote_escapes :: "string \<Rightarrow> string"
  urlretrieve :: "string \<Rightarrow> posix_path \<Rightarrow> transfer"

subsection \<open>\<^verbatim>\<open>urllib.parse.urlparse\<close>\<close>

record parse_result =
  scheme :: string
  netloc :: string
  path :: string
  params :: string
  query :: string
  fragment :: string

definition scheme_chars :: string where
  "scheme_chars = ''abcdefghijklmnopqrstuvwxyzABCDEFGHIJKLMNOPQRSTUVWXYZ0123456789+-.''"

definition uses_params :: "string list" where
  "uses_params = ['''', ''ftp'', ''hdl'', ''prospero'', ''http'', ''imap'', ''https'', ''shttp'',
     ''rtsp'', ''rtsps'', ''rtspu'', ''sip'', ''sips'', ''mms'', ''sftp'', ''tel'']"

text \<open>
  The scheme is the text before the first colon, when that text is not empty, starts with an
  ASCII letter and has scheme characters only.
\<close>

definition split_scheme :: "string \<Rightarrow> string \<times> string" where
  "split_scheme url =
     (let pre = before CHR '':'' url
      in if CHR '':'' \<in> set url \<and> pre \<noteq> [] \<and> ascii_isalpha (hd pre)
            \<and> (\<forall>c \<in> set pre. c \<in> set scheme_chars)
         then (map ascii_lower pre, after CHR '':'' url)
         else ([], url))"

text \<open>
  After two slashes the netloc runs to the first slash, question mark or hash. A netloc
  with one kind of square bracket only is refused; one with both has its bracketed host
  checked.
\<close>

definition split_netloc :: "lib \<Rightarrow> string \<Rightarrow> exn + string \<times> string" where
  "split_netloc lib url =
     (if take 2 url = ''//''
      then
        let delim = (\<lambda>c. c = CHR ''/'' \<or> c = CHR ''?'' \<or> c = CHR ''#'');
            loc = takeWhile (\<lambda>c. \<not> delim c) (drop 2 url);
            rest = dropWhile (\<lambda>c. \<not> delim c) (drop 2 url)
        in if (CHR ''['' \<in> set loc \<and> CHR '']'' \<notin> set loc)
              \<or> (CHR '']'' \<in> set loc \<and> CHR ''['' \<notin> set loc)
           then Inl (ValueError ''Invalid IPv6 URL'')
           else if CHR ''['' \<in> set loc \<and> CHR '']'' \<in> set loc
           then (case check_bracketed_host lib (before CHR '']'' (after CHR ''['' loc)) of
                   Some m \<Rightarrow> Inl (ValueError m)
                 | None \<Rightarrow> Inr (loc, rest))
           else Inr (loc, rest)
      else Inr ([], url))"

definition checknetloc :: "lib \<Rightarrow> string \<Rightarrow> string option" where
  "checknetloc lib loc = (if loc = [] \<or> isascii loc then None else checknetloc_nfkc lib loc)"

definition urlsplit :: "lib \<Rightarrow> string \<Rightarrow> exn + parse_result" where
  "urlsplit lib url0 =
     (let url1 = dropWhile (\<lambda>c. (of_char c :: nat) \<le> 32) url0;
          url2 = filter (\<lambda>c. c \<noteq> CHR 0x09 \<and> c \<noteq> CHR 0x0D \<and> c \<noteq> CHR 0x0A) url1;
          (sch, url3) = split_scheme url2
      in case split_netloc lib url3 of
           Inl e \<Rightarrow> Inl e
         | Inr (loc, url4) \<Rightarrow>
             let (url5, frag) = (if CHR ''#'' \<in> set url4
                                 then (before CHR ''#'' url4, after CHR ''#'' url4)
                                 else (url4, []));
                 (url6, qry) = (if CHR ''?'' \<in> set url5
                                then (before CHR ''?'' url5, after CHR ''?'' url5)
                                else (url5, []))
             in case checknetloc lib loc of
                  Some m \<Rightarrow> Inl (ValueError m)
                | None \<Rightarrow>
                    Inr \<lparr>scheme = sch, netloc = loc, path = url6, params = [],
                         query = qry, fragment = frag\<rparr>)"

text \<open>
  \<^verbatim>\<open>_splitparams\<close>, which \<^verbatim>\<open>urlparse\<close> calls only on a path that contains a semicolon:
  the parameters start at the first semicolon of the last path segment.
\<close>

definition splitparams :: "string \<Rightarrow> string \<times> string" where
  "splitparams url =
     (if CHR ''/'' \<in> set url
      then
        let seg = rev (takeWhile (\<lambda>c. c \<noteq> CHR ''/'') (rev url))
        in if CHR '';'' \<in> set seg
           then (take (length url - length seg) url @ before CHR '';'' seg, after CHR '';'' seg)
           else (url, [])
      else (before CHR '';'' url, after CHR '';'' url))"

definition urlparse :: "lib \<Rightarrow> string \<Rightarrow> exn + parse_result" where
  "urlparse lib url =
     (case urlsplit lib url of
        Inl e \<Rightarrow> Inl e
      | Inr r \<Rightarrow>
          if scheme r \<in> set uses_params \<and> CHR '';'' \<in> set (path r)
          then (case splitparams (path r) of (u, p) \<Rightarrow> Inr (r\<lparr>path := u, params := p\<rparr>))
          else Inr r)"

subsection \<open>\<^verbatim>\<open>urllib.parse.parse_qs\<close>\<close>

definition unquote :: "lib \<Rightarrow> string \<Rightarrow> string" where
  "unquote lib s = (if CHR 0x25 \<notin> set s then s else unquote_escapes lib s)"

definition unquote_plus :: "lib \<Rightarrow> string \<Rightarrow> string" where
  "unquote_plus lib s = unquote lib (map (\<lambda>c. if c = CHR ''+'' then CHR '' '' else c) s)"

text \<open>
  \<^verbatim>\<open>parse_qsl\<close> with its default arguments: the fields are separated by ampersands; a
  field whose value (the text after its first equals sign) is empty is dropped.
\<close>

fun qsl_fields :: "lib \<Rightarrow> string list \<Rightarrow> (string \<times> string) list" where
  "qsl_fields lib [] = []"
| "qsl_fields lib (name_value # rest) =
     (let name = before CHR ''='' name_value; v = after CHR ''='' name_value
      in if name_value \<noteq> [] \<and> v \<noteq> []
         then (unquote_plus lib name, unquote_plus lib v) # qsl_fields lib rest
         else qsl_fields lib rest)"

definition parse_qsl :: "lib \<Rightarrow> string \<Rightarrow> (string \<times> string) list" where
  "parse_qsl lib qs = (if qs = [] then [] else qsl_fields lib (split_on CHR ''&'' qs))"

text \<open>The loop of \<^verbatim>\<open>parse_qs\<close> that collects the values of each name into a dictionary.\<close>

fun collect ::
  "(string \<times> string) list \<Rightarrow> (string \<rightharpoonup> string list) \<Rightarrow> (string \<rightharpoonup> string list)" where
  "collect [] parsed_result = parsed_result"
| "collect ((name, v) # pairs) parsed_result =
     collect pairs
       (case parsed_result name of
          Some vs \<Rightarrow> parsed_result(name \<mapsto> vs @ [v])
        | None \<Rightarrow> parsed_result(name \<mapsto> [v]))"

definition parse_qs :: "lib \<Rightarrow> string \<Rightarrow> (string \<rightharpoonup> string list)" where
  "parse_qs lib qs = collect (parse_qsl lib qs) Map.empty"

subsection \<open>\<^verbatim>\<open>App.extract_media_url\<close>\<close>

definition extract_media_url :: "lib \<Rightarrow> string \<Rightarrow> exn + string" where
  "extract_media_url lib url =
     (case urlparse lib url of
        Inl e \<Rightarrow> Inl e
      | Inr parsed_url \<Rightarrow>
          (case parse_qs lib (query parsed_url) ''mediaurl'' of
             None \<Rightarrow> Inr url
           | Some [] \<Rightarrow> Inl (IndexError ''list index out of range'')
           | Some (media_url # _) \<Rightarrow> Inr (if media_url \<noteq> [] then media_url else url)))"

subsection \<open>\<^verbatim>\<open>pathlib.Path\<close>, POSIX flavour\<close>

text \<open>
  A path is its root (one slash, two slashes or empty) and its list \<^verbatim>\<open>_parts\<close>, which
  starts with the root when there is one. The drive is always empty on POSIX.
\<close>

definition splitroot :: "string \<Rightarrow> string \<times> string" where
  "splitroot part =
     (if part \<noteq> [] \<and> hd part = CHR ''/''
      then
        let stripped_part = dropWhile (\<lambda>c. c = CHR ''/'') part
        in (if length part - length stripped_part = 2 then ''//'' else ''/'', stripped_part)
      else ([], part))"

definition Path :: "string \<Rightarrow> posix_path" where
  "Path s =
     (case splitroot s of (rt, rel) \<Rightarrow>
        PosixPath rt
          ((if rt \<noteq> [] then [rt] else [])
           @ filter (\<lambda>x. x \<noteq> [] \<and> x \<noteq> ''.'') (split_on CHR ''/'' rel)))"

definition path_name :: "posix_path \<Rightarrow> string" where
  "path_name p =
     (if length (path_parts p) = (if path_root p \<noteq> [] then 1 else 0) then []
      else last (path_parts p))"

definition path_suffix :: "posix_path \<Rightarrow> string" where
  "path_suffix p =
     (let name = path_name p;
          i = (if CHR ''.'' \<in> set name
               then int (length name)
                    - int (length (takeWhile (\<lambda>c. c \<noteq> CHR ''.'') (rev name))) - 1
               else - 1)
      in if 0 < i \<and> i < int (length name) - 1 then drop (nat i) name else [])"

definition with_suffix :: "posix_path \<Rightarrow> string \<Rightarrow> exn + posix_path" where
  "with_suffix p suffix =
     (if CHR ''/'' \<in> set suffix then Inl (ValueError ''Invalid suffix %r'')
      else if (suffix \<noteq> [] \<and> take 1 suffix \<noteq> ''.'') \<or> suffix = ''.''
      then Inl (ValueError ''Invalid suffix %r'')
      else
        let name = path_name p
        in if name = [] then Inl (ValueError ''%r has an empty name'')
           else
             let old_suffix = path_suffix p;
                 name' = (if old_suffix = [] then name @ suffix
                          else take (length name - length old_suffix) name @ suffix)
             in Inr (PosixPath (path_root p) (butlast (path_parts p) @ [name'])))"


subsection \<open>\<^verbatim>\<open>App.has_extension\<close>\<close>

definition has_extension :: "posix_path \<Rightarrow> bool" where
  "has_extension file_path = (path_suffix file_path \<noteq> [])"

subsection \<open>\<^verbatim>\<open>App.download\<close>\<close>

text \<open>
  Lines 85 to 89, the destination of the download: the text of the location field as a
  path, with the suffix of the URL's path when it has none of its own. The spec calls
  this step \<^verbatim>\<open>normalize\<close>.
\<close>

definition normalize :: "lib \<Rightarrow> string \<Rightarrow> string \<Rightarrow> exn + posix_path" where
  "normalize lib location_text url =
     (let location = Path location_text
      in if \<not> has_extension location
         then (case urlparse lib url of
                 Inl e \<Rightarrow> Inl e
               | Inr u \<Rightarrow> with_suffix location (path_suffix (Path (path u))))
         else Inr location)"

text \<open>
  The calls of the report hook during one \<^verbatim>\<open>urlretrieve\<close>: the first that raises ends
  the transfer with its exception.
\<close>

fun report :: "(int \<times> int \<times> int) list \<Rightarrow> app \<Rightarrow> exn option \<times> app" where
  "report [] st = (None, st)"
| "report ((block_number, block_size, total_size) # rest) st =
     (case handle_progress block_number block_size total_size st of
        Inl e \<Rightarrow> (Some e, st)
      | Inr st' \<Rightarrow> report rest st')"

definition run_transfer :: "transfer \<Rightarrow> app \<Rightarrow> exn option \<times> app" where
  "run_transfer t st =
     (case report (notifications t) st of
        (Some e, st') \<Rightarrow> (Some e, st')
      | (None, st') \<Rightarrow> (raised t, st'))"

text \<open>
  \<open>download\<close> returns the exception that leaves it, if any, and the window. The statements
  before \<^verbatim>\<open>try\<close> are not guarded; inside \<^verbatim>\<open>try\<close> the first handler takes a
  \<^verbatim>\<open>URLError\<close>, the second every other exception.
\<close>

definition download :: "lib \<Rightarrow> app \<Rightarrow> exn option \<times> app" where
  "download lib st =
     (case extract_media_url lib (url_line_edit st) of
        Inl e \<Rightarrow> (Some e, st)
      | Inr url \<Rightarrow>
          (case normalize lib (location_line_edit st) url of
             Inl e \<Rightarrow> (Some e, st)
           | Inr location \<Rightarrow>
               let st1 = url_setText [] st;
                   st2 = location_setText [] st1
               in case run_transfer (urlretrieve lib url location) st2 of
                    (None, st3) \<Rightarrow>
                      (None,
                       setValue 0
                         (message_box
                            (Information ''Download Completed''
                               ''The Download Completed Successfully'') st3))
                  | (Some (URLError m), st3) \<Rightarrow>
                      (None,
                       message_box
                         (Warning ''Download Error''
                            (''Failed to download the file. Error: '' @ exn_str (URLError m))) st3)
                  | (Some e, st3) \<Rightarrow>
                      (None,
                       message_box
                         (Warning ''Download Error''
                            (''An error occurred: '' @ exn_str e)) st3)))"

subsection \<open>A concrete library and window\<close>

text \<open>
  For running the model on concrete inputs: a library that accepts every host, leaves
  escapes as they are and whose transfer reports nothing and returns; and the window as
  \<^verbatim>\<open>__init__\<close> leaves it, with the two fields filled in.
\<close>

definition plain_lib :: lib where
  "plain_lib =
     \<lparr>check_bracketed_host = (\<lambda>host. None),
      checknetloc_nfkc = (\<lambda>loc. None),
      unquote_escapes = (\<lambda>s. s),
      urlretrieve = (\<lambda>url file. \<lparr>notifications = [], raised = None\<rparr>)\<rparr>"

definition window :: "string \<Rightarrow> string \<Rightarrow> app" where
  "window url location =
     \<lparr>url_line_edit = url, location_line_edit = location, progress_bar = 0,
      progress_calls = [], dialogs = [], writes = []\<rparr>"

definition lib_with :: "transfer \<Rightarrow> lib" where
  "lib_with t = plain_lib\<lparr>urlretrieve := (\<lambda>url file. t)\<rparr>"

text \<open>
  A transfer of a file of 10240 bytes that breaks off after the first block of 8192:
  \<^verbatim>\<open>urlretrieve\<close> then raises \<^verbatim>\<open>ContentTooShortError\<close>, a subclass of \<^verbatim>\<open>URLError\<close>.
\<close>

definition short_transfer :: transfer where
  "short_transfer =
     \<lparr>notifications = [(0, 8192, 10240), (1, 8192, 10240)],
      raised = Some (URLError
        ''<urlopen error retrieval incomplete: got only 8192 out of 10240 bytes>'')\<rparr>"

text \<open>
  The same transfer, but the peer resets the connection while the second block is read:
  the read raises \<^verbatim>\<open>ConnectionResetError\<close>, which leaves \<^verbatim>\<open>urlretrieve\<close> as it is.
\<close>

definition reset_transfer :: transfer where
  "reset_transfer =
     \<lparr>notifications = [(0, 8192, 10240), (1, 8192, 10240)],
      raised = Some (ConnectionResetError ''[Errno 104] Connection reset by peer'')\<rparr>"

section \<open>The progress bar\<close>

subsection \<open>Rounding to the nearest double\<close>

lemma rhe_between:
  assumes "0 < d"
  shows "n div d \<le> round_half_even n d" and "round_half_even n d \<le> n div d + 1"
  by (simp_all add: round_half_even_def Let_def)

lemma le_div_int: "0 < (d::int) \<Longrightarrow> k * d \<le> n \<Longrightarrow> k \<le> n div d"
  using zdiv_mono1 by fastforce

lemma div_lt_int:
  assumes "0 < (d::int)" and "n < k * d"
  shows "n div d < k"
proof (rule ccontr)
  assume "\<not> n div d < k"
  then have "k * d \<le> (n div d) * d" using assms(1) by (simp add: mult_right_mono)
  also have "\<dots> \<le> n" using assms(1) by (metis mult.commute pos_mod_sign add_increasing2 mult_div_mod_eq order_refl)
  finally show False using assms(2) by simp
qed

lemma rhe_ge:
  assumes "0 < d" and "k * d \<le> n"
  shows "k \<le> round_half_even n d"
  using le_div_int [OF assms] rhe_between(1) [OF assms(1), of n] by linarith

lemma rhe_le:
  assumes "0 < d" and "n \<le> k * d"
  shows "round_half_even n d \<le> k"
proof (cases "n = k * d")
  case True
  with assms(1) show ?thesis by (simp add: round_half_even_def Let_def)
next
  case False
  with assms(2) have "n < k * d" by simp
  from div_lt_int [OF assms(1) this] rhe_between(2) [OF assms(1), of n]
  show ?thesis by linarith
qed

lemma rhe_lt:
  assumes "0 < d" and "2 * n < (2 * k - 1) * d"
  shows "round_half_even n d < k"
proof -
  define q where "q = n div d"
  define r where "r = n mod d"
  have n: "n = q * d + r" by (simp add: q_def r_def)
  have r: "0 \<le> r" "r < d" using assms(1) by (simp_all add: r_def)
  have kd: "(2 * k - 1) * d = 2 * (k * d) - d" by (simp add: algebra_simps)
  have "q < k"
  proof (rule ccontr)
    assume "\<not> q < k"
    then have "k * d \<le> q * d" using assms(1) by (simp add: mult_right_mono)
    with assms(2) n r kd assms(1) show False by linarith
  qed
  show ?thesis
  proof (cases "q = k - 1")
    case True
    then have "k = q + 1" by simp
    then have "q * d = k * d - d" by (simp add: algebra_simps)
    with assms(2) n kd have "2 * r < d" by linarith
    then have "round_half_even n d = q"
      by (simp add: round_half_even_def Let_def q_def r_def)
    with True show ?thesis by simp
  next
    case False
    with \<open>q < k\<close> have "q + 1 < k" by simp
    with rhe_between(2) [OF assms(1), of n] show ?thesis by (simp add: q_def)
  qed
qed

lemma rhe_ge_half:
  assumes "0 < d" and "(2 * k - 1) * d \<le> 2 * n" and "even k"
  shows "k \<le> round_half_even n d"
proof -
  define q where "q = n div d"
  define r where "r = n mod d"
  have n: "n = q * d + r" by (simp add: q_def r_def)
  have r: "0 \<le> r" "r < d" using assms(1) by (simp_all add: r_def)
  have kd: "(2 * k - 1) * d = 2 * (k * d) - d" by (simp add: algebra_simps)
  show ?thesis
  proof (cases "k \<le> q")
    case True
    with rhe_between(1) [OF assms(1), of n] show ?thesis by (simp add: q_def)
  next
    case False
    have "k - 1 \<le> q"
    proof (rule ccontr)
      assume "\<not> k - 1 \<le> q"
      then have "q + 2 \<le> k" by simp
      then have "(q + 2) * d \<le> k * d" using assms(1) by (simp add: mult_right_mono)
      then have "q * d + 2 * d \<le> k * d" by (simp add: algebra_simps)
      with assms(2) n r kd show False by linarith
    qed
    with False have qk: "q = k - 1" by simp
    then have "k = q + 1" by simp
    then have "q * d = k * d - d" by (simp add: algebra_simps)
    with assms(2) n kd have half: "d \<le> 2 * r" by linarith
    from qk assms(3) have "odd q" by simp
    with half have "round_half_even n d = q + 1"
      by (simp add: round_half_even_def Let_def q_def r_def)
    with qk show ?thesis by simp
  qed
qed

text \<open>
  The bit length of a positive integer \<open>a\<close> is \<open>l + 1\<close> with \<open>2 ^ l \<le> a < 2 ^ (l + 1)\<close>; from
  the bit lengths of \<open>a\<close> and \<open>b\<close>, \<open>floor_log2_quot a b\<close> is the \<open>f\<close> with
  \<open>2 ^ f \<le> a / b < 2 ^ (f + 1)\<close>, written here without fractions.
\<close>

lemma bitlen_pos_bounds:
  assumes "0 < (a::int)"
  obtains l where "bitlen a = int l + 1" and "2 ^ l \<le> a" and "a < 2 ^ (l + 1)"
proof -
  from assms have "1 \<le> bitlen a" by (simp add: bitlen_alt_def)
  then obtain l where l: "bitlen a = int l + 1"
    by (metis add.commute diff_add_cancel diff_ge_0_iff_ge nonneg_int_cases)
  from bitlen_bounds [OF assms] l have "2 ^ l \<le> a" "a < 2 ^ (l + 1)"
    by (simp_all add: nat_add_distrib)
  with l that show ?thesis by blast
qed

lemma floor_log2_quot_lower:
  assumes "0 < a" and "0 < b"
  shows "b * 2 ^ nat (floor_log2_quot a b) \<le> a * 2 ^ nat (- floor_log2_quot a b)"
proof (cases "b * 2 ^ nat (bitlen a - bitlen b) \<le> a * 2 ^ nat (- (bitlen a - bitlen b))")
  case True
  then show ?thesis by (simp add: floor_log2_quot_def Let_def)
next
  case False
  obtain la where la: "bitlen a = int la + 1" "2 ^ la \<le> a" "a < 2 ^ (la + 1)"
    using bitlen_pos_bounds [OF assms(1)] by blast
  obtain lb where lb: "bitlen b = int lb + 1" "2 ^ lb \<le> b" "b < 2 ^ (lb + 1)"
    using bitlen_pos_bounds [OF assms(2)] by blast
  from False have f: "floor_log2_quot a b = int la - int lb - 1"
    by (simp add: floor_log2_quot_def Let_def la lb)
  show ?thesis
  proof (cases "lb < la")
    case True
    then obtain j where j: "la = lb + 1 + j" by (metis Suc_eq_plus1 less_iff_Suc_add add.assoc add.commute)
    have "b * 2 ^ j \<le> 2 ^ (lb + 1) * 2 ^ j" using lb(3) by (simp add: mult_right_mono)
    also have "\<dots> = 2 ^ la" by (simp add: j power_add)
    finally have "b * 2 ^ j \<le> a" using la(2) by simp
    moreover have "nat (floor_log2_quot a b) = j" "nat (- floor_log2_quot a b) = 0"
      unfolding f j by simp_all
    ultimately show ?thesis by simp
  next
    case False
    then obtain j where j: "lb = la + j" by (metis le_iff_add not_less)
    have "b \<le> 2 ^ (lb + 1)" using lb(3) by simp
    also have "\<dots> = 2 ^ la * 2 ^ (j + 1)" by (simp add: j power_add)
    also have "\<dots> \<le> a * 2 ^ (j + 1)" using la(2) by (simp add: mult_right_mono)
    finally have "b \<le> a * 2 ^ (j + 1)" .
    moreover have "nat (floor_log2_quot a b) = 0" "nat (- floor_log2_quot a b) = j + 1"
      unfolding f j by simp_all
    ultimately show ?thesis by simp
  qed
qed

lemma floor_log2_quot_upper:
  assumes "0 < a" and "0 < b"
  shows "a * 2 ^ nat (- (floor_log2_quot a b + 1)) < b * 2 ^ nat (floor_log2_quot a b + 1)"
proof (cases "b * 2 ^ nat (bitlen a - bitlen b) \<le> a * 2 ^ nat (- (bitlen a - bitlen b))")
  case False
  then have "floor_log2_quot a b + 1 = bitlen a - bitlen b"
    by (simp add: floor_log2_quot_def Let_def)
  with False show ?thesis by simp
next
  case True
  obtain la where la: "bitlen a = int la + 1" "2 ^ la \<le> a" "a < 2 ^ (la + 1)"
    using bitlen_pos_bounds [OF assms(1)] by blast
  obtain lb where lb: "bitlen b = int lb + 1" "2 ^ lb \<le> b" "b < 2 ^ (lb + 1)"
    using bitlen_pos_bounds [OF assms(2)] by blast
  from True have f: "floor_log2_quot a b = int la - int lb"
    by (simp add: floor_log2_quot_def Let_def la lb)
  show ?thesis
  proof (cases "lb \<le> la")
    case True
    then obtain j where j: "la = lb + j" by (metis le_iff_add)
    have "a < 2 ^ (la + 1)" by (rule la(3))
    also have "\<dots> = 2 ^ lb * 2 ^ (j + 1)" by (simp add: j power_add)
    also have "\<dots> \<le> b * 2 ^ (j + 1)" using lb(2) by (simp add: mult_right_mono)
    finally have "a < b * 2 ^ (j + 1)" .
    moreover have "nat (floor_log2_quot a b + 1) = j + 1" "nat (- (floor_log2_quot a b + 1)) = 0"
      unfolding f j by simp_all
    ultimately show ?thesis by simp
  next
    case False
    then obtain j where j: "lb = la + 1 + j" by (metis Suc_eq_plus1 less_iff_Suc_add add.assoc add.commute not_le)
    have "a * 2 ^ j < 2 ^ (la + 1) * 2 ^ j" using la(3) by simp
    also have "\<dots> = 2 ^ lb" by (simp add: j power_add)
    finally have "a * 2 ^ j < b" using lb(2) by simp
    moreover have "nat (floor_log2_quot a b + 1) = 0" "nat (- (floor_log2_quot a b + 1)) = j"
      unfolding f j by simp_all
    ultimately show ?thesis by simp
  qed
qed

lemma nearest_double_floor:
  assumes a: "0 < a" "a < 2 ^ 53" and b: "0 < b"
    and nd: "nearest_double a b = (m, e)"
  shows "e \<le> 0 \<and> m div 2 ^ nat (- e) = a div b"
proof -
  define f where "f = floor_log2_quot a b"
  have lower: "b * 2 ^ nat f \<le> a * 2 ^ nat (- f)"
    unfolding f_def by (rule floor_log2_quot_lower [OF a(1) b])
  have f52: "f \<le> 52"
  proof (rule ccontr)
    assume "\<not> f \<le> 52"
    then have "53 \<le> f" by simp
    define j where "j = nat f - 53"
    from \<open>53 \<le> f\<close> have j: "nat f = 53 + j" "nat (- f) = 0"
      by (simp_all add: j_def)
    have "(2::int) ^ 53 * 1 \<le> 2 ^ 53 * 2 ^ j" by (intro mult_left_mono) simp_all
    also have "\<dots> = 2 ^ nat f" by (simp add: j power_add)
    also have "\<dots> \<le> b * 2 ^ nat f" using b by simp
    finally show False using lower a(2) j by simp
  qed
  have e: "e = max (f - 52) (- 1074)" and m: "m = round_half_even (a * 2 ^ nat (- e)) (b * 2 ^ nat e)"
    using nd by (auto simp add: nearest_double_def Let_def f_def)
  from f52 e have e0: "e \<le> 0" by simp
  define k where "k = nat (- e)"
  from e0 have m': "m = round_half_even (a * 2 ^ k) b"
    unfolding m k_def by simp
  define N where "N = a div b"
  have Nb: "N * b \<le> a" "a < (N + 1) * b"
  proof -
    have "a = N * b + a mod b" by (simp add: N_def)
    moreover have "0 \<le> a mod b" "a mod b < b" using b by simp_all
    moreover have "(N + 1) * b = N * b + b" by (simp add: algebra_simps)
    ultimately show "N * b \<le> a" "a < (N + 1) * b" by linarith+
  qed
  have "(N * 2 ^ k) * b \<le> a * 2 ^ k"
    using Nb(1) by (simp add: mult.assoc mult.left_commute mult.commute mult_right_mono)
  from rhe_ge [OF b this] have lo: "N * 2 ^ k \<le> m" by (simp add: m')
  have hi: "m < (N + 1) * 2 ^ k"
  proof (cases "b < 2 ^ (k + 1)")
    case True
    have "a + 1 \<le> (N + 1) * b" using Nb(2) by simp
    then have "(a + 1) * 2 ^ k \<le> ((N + 1) * b) * 2 ^ k" by (simp add: mult_right_mono)
    then have "2 * (a * 2 ^ k) + 2 ^ (k + 1) \<le> 2 * ((N + 1) * 2 ^ k) * b"
      by (simp add: algebra_simps)
    moreover have "(2 * ((N + 1) * 2 ^ k) - 1) * b = 2 * ((N + 1) * 2 ^ k) * b - b"
      by (simp add: algebra_simps)
    ultimately have "2 * (a * 2 ^ k) < (2 * ((N + 1) * 2 ^ k) - 1) * b"
      using True by linarith
    from rhe_lt [OF b this] show ?thesis by (simp add: m')
  next
    case False
    have ek: "e = - 1074 \<and> k = 1074"
    proof (rule ccontr)
      assume "\<not> (e = - 1074 \<and> k = 1074)"
      with e have ef: "e = f - 52" by (auto simp: k_def max_def split: if_splits)
      show False
      proof (cases "0 \<le> f")
        case True
        then obtain nf where nf: "f = int nf" using nonneg_int_cases by blast
        with f52 have k53: "k + 1 + nf = 53" unfolding k_def ef by simp
        from lower a(2) nf have "b * 2 ^ nf < 2 ^ 53" by simp
        also have "\<dots> = 2 ^ (k + 1) * (2::int) ^ nf"
          by (simp only: k53 flip: power_add)
        finally have "b < 2 ^ (k + 1)" by (simp add: mult_less_cancel_right)
        with False show False by simp
      next
        case False
        then have "0 \<le> - f" by simp
        then obtain j where j: "- f = int j" using nonneg_int_cases by blast
        then have nf: "nat f = 0" "nat (- f) = j" by simp_all
        have k: "k + 1 = 53 + j" unfolding k_def ef using j by simp
        from lower nf have "b \<le> a * 2 ^ j" by simp
        also have "\<dots> < 2 ^ 53 * 2 ^ j" using a(2) by simp
        also have "\<dots> = 2 ^ (k + 1)" by (simp only: k power_add)
        finally show False using \<open>\<not> b < 2 ^ (k + 1)\<close> by simp
      qed
    qed
    with False have bb: "2 ^ 1075 \<le> b" by simp
    have "a < b" using a(2) bb by simp
    then have N0: "N = 0" unfolding N_def using a(1) by simp
    have "a * 2 ^ 1074 \<le> 2 ^ 53 * 2 ^ 1074" using a(2) by simp
    also have "\<dots> = 2 ^ 52 * (2::int) ^ 1075" by simp
    also have "\<dots> \<le> 2 ^ 52 * b" using bb by simp
    finally have "m \<le> 2 ^ 52" using rhe_le [OF b, of "a * 2 ^ 1074" "2 ^ 52"] ek by (simp add: m')
    also have "\<dots> < (2::int) ^ 1074" by simp
    finally show ?thesis using N0 ek by simp
  qed
  have "m div 2 ^ k = N"
  proof -
    have p: "(0::int) < 2 ^ k" by simp
    from le_div_int [OF p lo] div_lt_int [OF p hi] show ?thesis by simp
  qed
  with e0 show ?thesis by (simp add: k_def N_def)
qed

subsection \<open>When the division is exact enough, and when it is finite\<close>

lemma py_truediv_floor:
  assumes "0 \<le> a" and "a < 2 ^ 53" and "0 < b"
  shows "\<exists>q. py_truediv a b = Inr q \<and> py_int q = a div b"
proof (cases "a = 0")
  case True
  with assms(3) show ?thesis by (simp add: py_truediv_def)
next
  case False
  with assms(1) have a: "0 < a" by simp
  obtain m e where nd: "nearest_double a b = (m, e)" by (cases "nearest_double a b")
  from nearest_double_floor [OF a assms(2,3) nd]
  have e: "e \<le> 0" and m: "m div 2 ^ nat (- e) = a div b" by simp_all
  have "a div b \<le> a div 1" using a assms(3) by (intro zdiv_mono2) simp_all
  then have "a div b < 2 ^ 53" using assms(2) by simp
  moreover have "(2::int) ^ 53 < 2 ^ 1024" by simp
  ultimately have small: "a div b < 2 ^ 1024" by (rule less_trans)
  have no: "\<not> (0 \<le> e \<and> 2 ^ 1024 \<le> m * 2 ^ nat e)"
  proof
    assume "0 \<le> e \<and> 2 ^ 1024 \<le> m * 2 ^ nat e"
    with e have "e = 0" "2 ^ 1024 \<le> m" by simp_all
    with m small show False by simp
  qed
  have "py_truediv a b = Inr (PyFloat False m e)"
    using a assms(3) nd no by (simp add: py_truediv_def)
  moreover have "py_int (PyFloat False m e) = a div b"
    using e m by (cases "e = 0") (simp_all add: Let_def)
  ultimately show ?thesis by blast
qed

lemma percent_of_floor:
  assumes "0 \<le> read * 100" and "read * 100 < 2 ^ 53" and "0 < total_size"
  shows "percent_of read total_size = Inr (min 100 (read * 100 div total_size))"
proof -
  from py_truediv_floor [OF assms] obtain q
    where "py_truediv (read * 100) total_size = Inr q" "py_int q = read * 100 div total_size"
    by blast
  then show ?thesis by (simp add: percent_of_def Let_def min_def)
qed

lemma nearest_double_finite:
  assumes a: "0 < a" and b: "0 < b" and bound: "a < (2 ^ 1024 - 2 ^ 970) * b"
    and nd: "nearest_double a b = (m, e)"
  shows "\<not> (0 \<le> e \<and> 2 ^ 1024 \<le> m * 2 ^ nat e)"
proof
  assume ov: "0 \<le> e \<and> 2 ^ 1024 \<le> m * 2 ^ nat e"
  define f where "f = floor_log2_quot a b"
  have e: "e = max (f - 52) (- 1074)" and m: "m = round_half_even (a * 2 ^ nat (- e)) (b * 2 ^ nat e)"
    using nd by (auto simp add: nearest_double_def Let_def f_def)
  from ov e have ef: "e = f - 52" by (simp add: max_def split: if_splits)
  from ov obtain ne where ne: "e = int ne" using nonneg_int_cases by blast
  with ef have f: "f = int (ne + 52)" by simp
  have nf: "nat f = ne + 52" "nat (- f) = 0" "nat (f + 1) = ne + 53" "nat (- (f + 1)) = 0"
    unfolding f by simp_all
  have m': "m = round_half_even a (b * 2 ^ ne)" unfolding m ne by simp
  have d: "0 < b * 2 ^ ne" using b by simp
  have lower: "b * 2 ^ (ne + 52) \<le> a"
    using floor_log2_quot_lower [OF a b] unfolding f_def [symmetric] nf by simp
  have upper: "a < b * 2 ^ (ne + 53)"
    using floor_log2_quot_upper [OF a b] unfolding f_def [symmetric] nf by simp
  have m53: "m \<le> 2 ^ 53"
  proof -
    have "a \<le> 2 ^ 53 * (b * 2 ^ ne)" using upper by (simp add: power_add mult.commute mult.left_commute)
    from rhe_le [OF d this] show ?thesis by (simp add: m')
  qed
  have "b * 2 ^ (ne + 52) < 2 ^ 1024 * b"
  proof -
    have "(2 ^ 1024 - 2 ^ 970) * b \<le> 2 ^ 1024 * b" using b by (intro mult_right_mono) simp_all
    with lower bound show ?thesis by linarith
  qed
  then have "(2::int) ^ (ne + 52) < 2 ^ 1024" using b by (simp add: mult.commute)
  then have "ne + 52 < 1024" by (simp only: power_strict_increasing_iff [of "2::int"])
  then have ne971: "ne \<le> 971" by simp
  show False
  proof (cases "ne = 971")
    case True
    have "2 * a < 2 * ((2 ^ 1024 - 2 ^ 970) * b)" using bound by simp
    also have "\<dots> = (2 * 2 ^ 53 - 1) * (b * 2 ^ 971)" by (simp add: algebra_simps)
    finally have "m < 2 ^ 53" using rhe_lt [OF d, of a "2 ^ 53"] True by (simp add: m')
    then have "m + 1 \<le> 2 ^ 53" by simp
    then have "(m + 1) * 2 ^ 971 \<le> 2 ^ 53 * (2::int) ^ 971" by (intro mult_right_mono) simp_all
    then have "m * 2 ^ 971 < 2 ^ 1024" by (simp add: algebra_simps)
    with ov ne True show False by simp
  next
    case False
    with ne971 have "ne \<le> 970" by simp
    then have "(2::int) ^ ne \<le> 2 ^ 970" by (simp only: power_increasing_iff [of "2::int"]) 
    then have "m * 2 ^ ne \<le> 2 ^ 53 * (2::int) ^ 970" using m53 by (intro mult_mono) simp_all
    also have "\<dots> < 2 ^ 1024" by simp
    finally show False using ov ne by simp
  qed
qed

lemma nearest_double_overflow:
  assumes a: "0 < a" and b: "0 < b" and bound: "(2 ^ 1024 - 2 ^ 970) * b \<le> a"
    and nd: "nearest_double a b = (m, e)"
  shows "0 \<le> e \<and> 2 ^ 1024 \<le> m * 2 ^ nat e"
proof -
  define f where "f = floor_log2_quot a b"
  have e: "e = max (f - 52) (- 1074)"
    and m: "m = round_half_even (a * 2 ^ nat (- e)) (b * 2 ^ nat e)"
    using nd by (auto simp add: nearest_double_def Let_def f_def)
  have f1023: "1023 \<le> f"
  proof (rule ccontr)
    assume "\<not> 1023 \<le> f"
    then have "f + 1 \<le> 1023" by simp
    then have "nat (f + 1) \<le> 1023" by simp
    then have "(2::int) ^ nat (f + 1) \<le> 2 ^ 1023"
      by (simp only: power_increasing_iff [of "2::int"])
    then have "b * 2 ^ nat (f + 1) \<le> b * 2 ^ 1023" using b by (intro mult_left_mono) simp_all
    moreover have "a * 1 \<le> a * 2 ^ nat (- (f + 1))" using a by (intro mult_left_mono) simp_all
    moreover have "a * 2 ^ nat (- (f + 1)) < b * 2 ^ nat (f + 1)"
      using floor_log2_quot_upper [OF a b] by (simp add: f_def)
    moreover have "b * 2 ^ 1023 \<le> (2 ^ 1024 - 2 ^ 970) * b"
    proof -
      have "(2::int) ^ 1023 \<le> 2 ^ 1024 - 2 ^ 970" by simp
      then have "2 ^ 1023 * b \<le> (2 ^ 1024 - 2 ^ 970) * b" using b by (intro mult_right_mono) simp_all
      then show ?thesis by (simp add: mult.commute)
    qed
    ultimately show False using bound by linarith
  qed
  then obtain j where j: "f = int (1023 + j)"
    by (metis add.commute nonneg_int_cases diff_ge_0_iff_ge diff_add_cancel of_nat_add of_nat_numeral)
  have ee: "e = int (971 + j)" unfolding e j by simp
  then have ne: "nat e = 971 + j" "nat (- e) = 0" by simp_all
  have nf: "nat f = 1023 + j" "nat (- f) = 0" unfolding j by simp_all
  have m': "m = round_half_even a (b * 2 ^ (971 + j))" unfolding m ne by simp
  have d: "0 < b * 2 ^ (971 + j)" using b by simp
  have lower: "b * 2 ^ (1023 + j) \<le> a"
    using floor_log2_quot_lower [OF a b] unfolding f_def [symmetric] nf by simp
  have "2 ^ 1024 \<le> m * 2 ^ (971 + j)"
  proof (cases j)
    case 0
    have "(2 * 2 ^ 53 - 1) * (b * 2 ^ 971) = 2 * ((2 ^ 1024 - 2 ^ 970) * b)"
      by (simp add: algebra_simps)
    also have "\<dots> \<le> 2 * a" using bound by simp
    finally have "2 ^ 53 \<le> m" using rhe_ge_half [OF d, of "2 ^ 53" a] 0 by (simp add: m')
    then have "2 ^ 53 * (2::int) ^ 971 \<le> m * 2 ^ 971" by (intro mult_right_mono) simp_all
    with 0 show ?thesis by simp
  next
    case (Suc i)
    have "1023 + j = 52 + (971 + j)" by simp
    then have p: "(2::int) ^ (1023 + j) = 2 ^ 52 * 2 ^ (971 + j)"
      by (simp only: power_add)
    have "2 ^ 52 * (b * 2 ^ (971 + j)) = b * (2 ^ 52 * 2 ^ (971 + j))"
      by (simp only: mult.left_commute)
    also have "\<dots> = b * 2 ^ (1023 + j)" by (simp only: p)
    finally have "2 ^ 52 * (b * 2 ^ (971 + j)) \<le> a" using lower by (simp only:)
    from rhe_ge [OF d this] have "2 ^ 52 \<le> m" by (simp add: m')
    then have "2 ^ 52 * (2::int) ^ (971 + j) \<le> m * 2 ^ (971 + j)"
      by (intro mult_right_mono) simp_all
    moreover have "(2::int) ^ 1024 \<le> 2 ^ 52 * 2 ^ (971 + j)"
    proof -
      have "(2::int) ^ 1024 \<le> 2 ^ (1023 + j)"
        by (simp only: power_increasing_iff [of "2::int"]) (simp add: Suc)
      also have "\<dots> = 2 ^ 52 * 2 ^ (971 + j)" by (rule p)
      finally show ?thesis .
    qed
    ultimately show ?thesis by linarith
  qed
  with ee ne show ?thesis by simp
qed

subsection \<open>The percentage and the bar\<close>

lemma setValue_fields [simp]:
  "url_line_edit (setValue v st) = url_line_edit st"
  "location_line_edit (setValue v st) = location_line_edit st"
  "dialogs (setValue v st) = dialogs st"
  "progress_bar (setValue v st) = v"
  "progress_calls (setValue v st) = progress_calls st @ [v]"
  "writes (setValue v st) = writes st @ [Progress_setValue v]"
  by (simp_all add: setValue_def)

lemma percent_of_le_100: "percent_of read total_size = Inr p \<Longrightarrow> p \<le> 100"
  by (auto simp: percent_of_def Let_def split: sum.splits if_splits)

lemma percent_of_raises:
  assumes "0 < total_size" and "percent_of read total_size = Inl e"
  shows "e = OverflowError ''integer division result too large for a float''"
  using assms
  by (auto simp: percent_of_def py_truediv_def Let_def split: sum.splits if_splits prod.splits)

lemma percent_of_finite:
  assumes "0 < total_size" and "0 < read"
    and "read * 100 < (2 ^ 1024 - 2 ^ 970) * total_size"
  shows "\<exists>p. percent_of read total_size = Inr p"
proof -
  obtain m e where nd: "nearest_double (read * 100) total_size = (m, e)"
    by (cases "nearest_double (read * 100) total_size")
  have a: "0 < read * 100" using assms(2) by simp
  from nearest_double_finite [OF a assms(1,3) nd] nd a assms(1)
  show ?thesis by (simp add: percent_of_def py_truediv_def Let_def)
qed

lemma percent_of_overflow:
  assumes "0 < total_size" and "(2 ^ 1024 - 2 ^ 970) * total_size \<le> \<bar>read * 100\<bar>"
  shows "percent_of read total_size
           = Inl (OverflowError ''integer division result too large for a float'')"
proof -
  obtain m e where nd: "nearest_double \<bar>read * 100\<bar> total_size = (m, e)"
    by (cases "nearest_double \<bar>read * 100\<bar> total_size")
  have "0 < (2 ^ 1024 - 2 ^ 970) * total_size" using assms(1) by simp
  with assms(2) have a: "0 < \<bar>read * 100\<bar>" by linarith
  then have nz: "read * 100 \<noteq> 0" by simp
  from nearest_double_overflow [OF a assms(1,2) nd] nd nz assms(1)
  show ?thesis by (simp add: percent_of_def py_truediv_def Let_def)
qed

lemma percent_of_finite_abs:
  assumes "0 < total_size" and "\<bar>read * 100\<bar> < (2 ^ 1024 - 2 ^ 970) * total_size"
  shows "\<exists>p. percent_of read total_size = Inr p"
proof (cases "read * 100 = 0")
  case True
  with assms(1) show ?thesis by (simp add: percent_of_def py_truediv_def Let_def)
next
  case False
  obtain m e where nd: "nearest_double \<bar>read * 100\<bar> total_size = (m, e)"
    by (cases "nearest_double \<bar>read * 100\<bar> total_size")
  from False have a: "0 < \<bar>read * 100\<bar>" by simp
  from nearest_double_finite [OF a assms(1,2) nd] nd False assms(1)
  show ?thesis by (simp add: percent_of_def py_truediv_def Let_def)
qed

lemma handle_progress_known:
  assumes "0 < total_size" and "percent_of (block_number * block_size) total_size = Inr p"
  shows "handle_progress block_number block_size total_size st =
           Inr (if total_size \<le> block_number * block_size
                then setValue 100 (setValue p st) else setValue p st)"
  using assms by (simp add: handle_progress_def Let_def)

text \<open>
  C1. The claim: with \<^verbatim>\<open>total_size <= 0\<close> no percentage is produced and the progress bar
  is left unchanged. The code: the second test of \<open>handle_progress\<close>,
  \<^verbatim>\<open>read >= total_size\<close>, is outside the guard \<^verbatim>\<open>total_size > 0\<close>. For a response
  without a length \<^verbatim>\<open>urlretrieve\<close> reports the size \<open>- 1\<close>, and its first notification,
  block 0 of 8192 bytes, already sets the bar to 100.
\<close>

theorem handle_progress_unknown_size_sets_100:
  "handle_progress 0 8192 (- 1) st = Inr (setValue 100 st)
   \<and> progress_bar (setValue 100 st) = 100"
  by (simp add: handle_progress_def setValue_def)

text \<open>
  C2, as the code has it. No value above 100 is ever handed to the progress bar. When
  \<^verbatim>\<open>block_number * block_size >= total_size > 0\<close> the bar ends at exactly 100, provided
  the quotient \<^verbatim>\<open>read * 100 / total_size\<close> is below \<open>2 ^ 1024 - 2 ^ 970\<close>, the least
  value that no longer rounds to a finite double. From that bound on the division raises
  \<^verbatim>\<open>OverflowError\<close>, for every \<^verbatim>\<open>total_size > 0\<close>; it is the only exception of
  \<open>handle_progress\<close>, and it is raised before the bar is touched.
\<close>

theorem handle_progress_at_most_100:
  "(\<forall>st'. handle_progress block_number block_size total_size st = Inr st' \<longrightarrow>
       (\<exists>vs. progress_calls st' = progress_calls st @ vs \<and> (\<forall>v \<in> set vs. v \<le> 100)))
   \<and> (0 < total_size \<and> total_size \<le> block_number * block_size
        \<and> block_number * block_size * 100 < (2 ^ 1024 - 2 ^ 970) * total_size \<longrightarrow>
       (\<exists>st'. handle_progress block_number block_size total_size st = Inr st'
              \<and> progress_bar st' = 100))
   \<and> (0 < total_size
        \<and> (2 ^ 1024 - 2 ^ 970) * total_size \<le> block_number * block_size * 100 \<longrightarrow>
       handle_progress block_number block_size total_size st
         = Inl (OverflowError ''integer division result too large for a float''))
   \<and> (\<forall>e. handle_progress block_number block_size total_size st = Inl e \<longrightarrow>
         e = OverflowError ''integer division result too large for a float'')"
proof (intro conjI allI impI)
  fix st'
  assume r: "handle_progress block_number block_size total_size st = Inr st'"
  show "\<exists>vs. progress_calls st' = progress_calls st @ vs \<and> (\<forall>v \<in> set vs. v \<le> 100)"
  proof (cases "0 < total_size")
    case False
    with r have "st' = setValue 100 st \<or> st' = st"
      by (auto simp: handle_progress_def Let_def split: if_splits)
    then show ?thesis by auto
  next
    case True
    with r obtain p where p: "percent_of (block_number * block_size) total_size = Inr p"
      by (auto simp: handle_progress_def Let_def split: sum.splits)
    from percent_of_le_100 [OF p] r show ?thesis
      unfolding handle_progress_known [OF True p] by (auto split: if_splits)
  qed
next
  assume a: "0 < total_size \<and> total_size \<le> block_number * block_size
        \<and> block_number * block_size * 100 < (2 ^ 1024 - 2 ^ 970) * total_size"
  then have ts: "0 < total_size" and ge: "total_size \<le> block_number * block_size"
    and bound: "block_number * block_size * 100 < (2 ^ 1024 - 2 ^ 970) * total_size"
    by blast+
  from ts ge have "0 < block_number * block_size" by linarith
  from percent_of_finite [OF ts this bound]
  obtain p where p: "percent_of (block_number * block_size) total_size = Inr p" by blast
  show "\<exists>st'. handle_progress block_number block_size total_size st = Inr st'
              \<and> progress_bar st' = 100"
    unfolding handle_progress_known [OF ts p] using ge by simp
next
  assume a: "0 < total_size
        \<and> (2 ^ 1024 - 2 ^ 970) * total_size \<le> block_number * block_size * 100"
  then have ts: "0 < total_size"
    and "(2 ^ 1024 - 2 ^ 970) * total_size \<le> block_number * block_size * 100"
    by blast+
  then have "(2 ^ 1024 - 2 ^ 970) * total_size \<le> \<bar>block_number * block_size * 100\<bar>"
    by linarith
  from percent_of_overflow [OF ts this] ts
  show "handle_progress block_number block_size total_size st
         = Inl (OverflowError ''integer division result too large for a float'')"
    by (simp add: handle_progress_def Let_def)
next
  fix e
  assume "handle_progress block_number block_size total_size st = Inl e"
  then have "0 < total_size \<and> percent_of (block_number * block_size) total_size = Inl e"
    by (auto simp: handle_progress_def Let_def split: if_splits sum.splits)
  then show "e = OverflowError ''integer division result too large for a float''"
    using percent_of_raises by blast
qed

theorem handle_progress_at_most_100_witness:
  "(\<exists>st'. handle_progress 10 1024 10240 (window [] []) = Inr st' \<and> progress_bar st' = 100
       \<and> progress_calls st' = [100, 100])
   \<and> (\<exists>st'. handle_progress 5 1024 10240 (window [] []) = Inr st'
       \<and> progress_calls st' = [50])
   \<and> handle_progress (2 ^ 1030) 1 1 (window [] [])
       = Inl (OverflowError ''integer division result too large for a float'')"
proof -
  have h: "(0::int) < 10240 \<and> (10240::int) \<le> 10 * 1024
      \<and> (10::int) * 1024 * 100 < (2 ^ 1024 - 2 ^ 970) * 10240"
    by simp
  have o: "(0::int) < 1 \<and> (2 ^ 1024 - 2 ^ 970) * 1 \<le> (2::int) ^ 1030 * 1 * 100"
    by simp
  have v: "handle_progress 10 1024 10240 (window [] [])
      = Inr (setValue 100 (setValue 100 (window [] [])))"
    "handle_progress 5 1024 10240 (window [] []) = Inr (setValue 50 (window [] []))"
    by code_simp+
  from handle_progress_at_most_100 [of 10 1024 10240 "window [] []"] h
  have "\<exists>st'. handle_progress 10 1024 10240 (window [] []) = Inr st' \<and> progress_bar st' = 100"
    by blast
  moreover from handle_progress_at_most_100 [of "2 ^ 1030" 1 1 "window [] []"] o
  have "handle_progress (2 ^ 1030) 1 1 (window [] [])
       = Inl (OverflowError ''integer division result too large for a float'')"
    by blast
  ultimately show ?thesis using v by (simp add: window_def)
qed

text \<open>
  The claim as stated fails where the division overflows: one block of \<open>2 ^ 1030\<close> bytes
  of a file of one byte.
\<close>

theorem handle_progress_overflow:
  "(0::int) < 1 \<and> (1::int) \<le> 2 ^ 1030 * 1
   \<and> handle_progress (2 ^ 1030) 1 1 (window [] [])
       = Inl (OverflowError ''integer division result too large for a float'')"
  by code_simp

text \<open>
  C7, as the code has it. For \<^verbatim>\<open>total_size > 0\<close> and \<open>0 \<le> read * 100 < 2 ^ 53\<close> the
  percentage is \<open>\<lfloor>read * 100 / total_size\<rfloor>\<close>, at most 100, and it is the first value the
  bar gets; the spec's two examples are in this range.
\<close>

theorem percent_is_floor:
  assumes "0 < total_size" and "0 \<le> block_number * block_size"
    and "block_number * block_size * 100 < 2 ^ 53"
  shows "percent_of (block_number * block_size) total_size
           = Inr (min 100 (block_number * block_size * 100 div total_size))
     \<and> (\<exists>st'. handle_progress block_number block_size total_size st = Inr st'
          \<and> progress_calls st' = progress_calls st
               @ min 100 (block_number * block_size * 100 div total_size)
               # (if total_size \<le> block_number * block_size then [100] else []))"
proof -
  have p: "percent_of (block_number * block_size) total_size
           = Inr (min 100 (block_number * block_size * 100 div total_size))"
    using percent_of_floor [of "block_number * block_size" total_size] assms by simp
  show ?thesis
    unfolding handle_progress_known [OF assms(1) p] using p by simp
qed

theorem percent_is_floor_witness:
  "percent_of (5 * 1024) 10240 = Inr 50 \<and> percent_of (10 * 1024) 10240 = Inr 100"
proof -
  have h: "(0::int) < 10240" "(0::int) \<le> 5 * 1024" "(5::int) * 1024 * 100 < 2 ^ 53"
    "(0::int) \<le> 10 * 1024" "(10::int) * 1024 * 100 < 2 ^ 53"
    by simp_all
  from percent_is_floor [OF h(1,2,3)] percent_is_floor [OF h(1,4,5)]
  show ?thesis by simp
qed

text \<open>
  The claim as stated fails beyond that range, where the double nearest to the quotient
  is not below the next integer: after \<open>2 ^ 45\<close> blocks of 8192 bytes of a file one byte
  longer the floor is 99 and the code computes 100. It fails for a negative number of
  bytes too, since \<^verbatim>\<open>int\<close> truncates towards zero.
\<close>

theorem percent_not_floor:
  "percent_of (2 ^ 45 * 8192) (8192 * 2 ^ 45 + 1) = Inr 100
   \<and> min 100 (2 ^ 45 * 8192 * 100 div (8192 * 2 ^ 45 + 1)) = (99::int)
   \<and> percent_of (- 1 * 1) 3 = Inr (- 33)
   \<and> min 100 (- 1 * 1 * 100 div 3) = (- 34::int)"
  by code_simp

section \<open>The download operation\<close>

subsection \<open>What the progress hook and the transfer do to the window\<close>

lemma message_box_fields [simp]:
  "url_line_edit (message_box d st) = url_line_edit st"
  "location_line_edit (message_box d st) = location_line_edit st"
  "dialogs (message_box d st) = dialogs st @ [d]"
  "progress_bar (message_box d st) = progress_bar st"
  "progress_calls (message_box d st) = progress_calls st"
  "writes (message_box d st) = writes st @ [Message_Box d]"
  by (simp_all add: message_box_def)

lemma setText_fields [simp]:
  "url_line_edit (url_setText t st) = t"
  "location_line_edit (url_setText t st) = location_line_edit st"
  "dialogs (url_setText t st) = dialogs st"
  "progress_bar (url_setText t st) = progress_bar st"
  "progress_calls (url_setText t st) = progress_calls st"
  "writes (url_setText t st) = writes st @ [Url_setText t]"
  "url_line_edit (location_setText t st) = url_line_edit st"
  "location_line_edit (location_setText t st) = t"
  "dialogs (location_setText t st) = dialogs st"
  "progress_bar (location_setText t st) = progress_bar st"
  "progress_calls (location_setText t st) = progress_calls st"
  "writes (location_setText t st) = writes st @ [Location_setText t]"
  by (simp_all add: url_setText_def location_setText_def)

text \<open>
  The hook, and so the whole transfer, does nothing to the window but set values of the
  bar, one after the other.
\<close>

lemma set_values_fields:
  "url_line_edit (foldl (\<lambda>s v. setValue v s) st vs) = url_line_edit st"
  "location_line_edit (foldl (\<lambda>s v. setValue v s) st vs) = location_line_edit st"
  "dialogs (foldl (\<lambda>s v. setValue v s) st vs) = dialogs st"
  "progress_calls (foldl (\<lambda>s v. setValue v s) st vs) = progress_calls st @ vs"
  "writes (foldl (\<lambda>s v. setValue v s) st vs) = writes st @ map Progress_setValue vs"
  by (induction vs arbitrary: st) simp_all

lemma handle_progress_sets:
  assumes "handle_progress n bs ts st = Inr st'"
  shows "\<exists>vs. st' = foldl (\<lambda>s v. setValue v s) st vs"
proof -
  from assms have "(\<exists>p. st' = setValue 100 (setValue p st)) \<or> (\<exists>p. st' = setValue p st) \<or> st' = st"
    by (auto simp: handle_progress_def Let_def split: if_splits sum.splits)
  then consider p where "st' = foldl (\<lambda>s v. setValue v s) st [p, 100]"
    | p where "st' = foldl (\<lambda>s v. setValue v s) st [p]"
    | "st' = foldl (\<lambda>s v. setValue v s) st []"
    by auto
  then show ?thesis by cases blast+
qed

lemma report_sets:
  "report ns st = (r, st') \<Longrightarrow> \<exists>vs. st' = foldl (\<lambda>s v. setValue v s) st vs"
proof (induction ns arbitrary: st)
  case Nil
  then have "st' = foldl (\<lambda>s v. setValue v s) st []" by simp
  then show ?case by blast
next
  case (Cons x ns)
  obtain n bs ts where x: "x = (n, bs, ts)" by (cases x)
  show ?case
  proof (cases "handle_progress n bs ts st")
    case (Inl e)
    with Cons.prems x have "st' = foldl (\<lambda>s v. setValue v s) st []" by simp
    then show ?thesis by blast
  next
    case (Inr st1)
    with Cons.prems x have "report ns st1 = (r, st')" by simp
    from Cons.IH [OF this] obtain vs where "st' = foldl (\<lambda>s v. setValue v s) st1 vs" by blast
    moreover from handle_progress_sets [OF Inr]
    obtain us where "st1 = foldl (\<lambda>s v. setValue v s) st us" by blast
    ultimately have "st' = foldl (\<lambda>s v. setValue v s) st (us @ vs)" by simp
    then show ?thesis by blast
  qed
qed

text \<open>The only exception of the hook is the overflow of its division.\<close>

lemma report_raises:
  "report ns st = (Some e, st') \<Longrightarrow>
     e = OverflowError ''integer division result too large for a float''"
proof (induction ns arbitrary: st)
  case Nil
  then show ?case by simp
next
  case (Cons x ns)
  obtain n bs ts where x: "x = (n, bs, ts)" by (cases x)
  show ?case
  proof (cases "handle_progress n bs ts st")
    case (Inl e')
    with Cons.prems x have "e = e'" by simp
    moreover from Inl have "0 < ts \<and> percent_of (n * bs) ts = Inl e'"
      by (auto simp: handle_progress_def Let_def split: if_splits sum.splits)
    ultimately show ?thesis using percent_of_raises by blast
  next
    case (Inr st1)
    with Cons.prems x have "report ns st1 = (Some e, st')" by simp
    then show ?thesis by (rule Cons.IH)
  qed
qed

lemma handle_progress_in_range:
  assumes "ts \<le> 0 \<or> \<bar>n * bs * 100\<bar> < (2 ^ 1024 - 2 ^ 970) * ts"
  shows "\<exists>st'. handle_progress n bs ts st = Inr st'"
proof (cases "0 < ts")
  case False
  then show ?thesis by (simp add: handle_progress_def Let_def)
next
  case True
  with assms have "\<bar>n * bs * 100\<bar> < (2 ^ 1024 - 2 ^ 970) * ts" by linarith
  from percent_of_finite_abs [OF True this]
  obtain p where "percent_of (n * bs) ts = Inr p" by blast
  from handle_progress_known [OF True this] show ?thesis by simp
qed

lemma report_in_range:
  "\<forall>(n, bs, ts) \<in> set ns. ts \<le> 0 \<or> \<bar>n * bs * 100\<bar> < (2 ^ 1024 - 2 ^ 970) * ts \<Longrightarrow>
     fst (report ns st) = None"
proof (induction ns arbitrary: st)
  case Nil
  then show ?case by simp
next
  case (Cons x ns)
  obtain n bs ts where x: "x = (n, bs, ts)" by (cases x)
  with Cons.prems have "ts \<le> 0 \<or> \<bar>n * bs * 100\<bar> < (2 ^ 1024 - 2 ^ 970) * ts" by simp
  from handle_progress_in_range [OF this]
  obtain st1 where st1: "handle_progress n bs ts st = Inr st1" by blast
  from Cons.prems have "\<forall>(n, bs, ts) \<in> set ns.
      ts \<le> 0 \<or> \<bar>n * bs * 100\<bar> < (2 ^ 1024 - 2 ^ 970) * ts"
    by simp
  from Cons.IH [OF this, of st1] st1 x show ?case by simp
qed

text \<open>
  What leaves \<^verbatim>\<open>urlretrieve\<close> is the exception of the fetch itself or the overflow of the
  hook; it is that of the fetch when every notification is within the range of a double.
\<close>

lemma run_transfer_outcome:
  assumes "run_transfer t st = (r, st')"
  shows "\<exists>vs. st' = foldl (\<lambda>s v. setValue v s) st vs"
    and "r = raised t \<or> r = Some (OverflowError ''integer division result too large for a float'')"
    and "\<forall>(n, bs, ts) \<in> set (notifications t).
           ts \<le> 0 \<or> \<bar>n * bs * 100\<bar> < (2 ^ 1024 - 2 ^ 970) * ts \<Longrightarrow> r = raised t"
proof -
  obtain r0 st0 where rep: "report (notifications t) st = (r0, st0)"
    by (cases "report (notifications t) st")
  with assms have st': "st' = st0" and r: "r = (case r0 of None \<Rightarrow> raised t | Some e \<Rightarrow> Some e)"
    by (auto simp: run_transfer_def split: option.splits)
  from report_sets [OF rep] st' show "\<exists>vs. st' = foldl (\<lambda>s v. setValue v s) st vs" by simp
  show "r = raised t \<or> r = Some (OverflowError ''integer division result too large for a float'')"
  proof (cases r0)
    case None
    with r show ?thesis by simp
  next
    case (Some e)
    with rep report_raises have "e = OverflowError ''integer division result too large for a float''"
      by blast
    with r Some show ?thesis by simp
  qed
  assume "\<forall>(n, bs, ts) \<in> set (notifications t).
           ts \<le> 0 \<or> \<bar>n * bs * 100\<bar> < (2 ^ 1024 - 2 ^ 970) * ts"
  from report_in_range [OF this, of st] rep have "r0 = None" by simp
  with r show "r = raised t" by simp
qed

text \<open>
  Once the URL is resolved and the destination is ready, \<open>download\<close> clears the two fields,
  runs the transfer once and ends in one of three ways, none of which raises.
\<close>

lemma download_after_fetch:
  assumes "extract_media_url lib (url_line_edit st) = Inr url"
    and "normalize lib (location_line_edit st) url = Inr location"
    and "run_transfer (urlretrieve lib url location)
           (location_setText [] (url_setText [] st)) = (r, st3)"
  shows "download lib st =
     (None,
      case r of
        None \<Rightarrow> setValue 0 (message_box (Information ''Download Completed''
                   ''The Download Completed Successfully'') st3)
      | Some (URLError m) \<Rightarrow> message_box (Warning ''Download Error''
                   (''Failed to download the file. Error: '' @ m)) st3
      | Some e \<Rightarrow> message_box (Warning ''Download Error''
                   (''An error occurred: '' @ exn_str e)) st3)"
  using assms by (simp add: download_def Let_def split: option.splits exn.splits)

text \<open>The two transfers of 10240 bytes that break off after 8192, and the one that succeeds.\<close>

lemma percent_8192:
  "percent_of (0 * 8192) 10240 = Inr 0" "percent_of (1 * 8192) 10240 = Inr 80"
  by code_simp+

lemma broken_transfer_run:
  "run_transfer \<lparr>notifications = [(0, 8192, 10240), (1, 8192, 10240)], raised = Some e\<rparr> st
     = (Some e, setValue 80 (setValue 0 st))"
  by (simp add: run_transfer_def handle_progress_known [OF _ percent_8192(1)]
      handle_progress_known [OF _ percent_8192(2)])

lemma short_transfer_run:
  "run_transfer (urlretrieve (lib_with short_transfer) url file) st =
     (Some (URLError ''<urlopen error retrieval incomplete: got only 8192 out of 10240 bytes>''),
      setValue 80 (setValue 0 st))"
  by (simp add: lib_with_def short_transfer_def broken_transfer_run)

lemma reset_transfer_run:
  "run_transfer (urlretrieve (lib_with reset_transfer) url file) st =
     (Some (ConnectionResetError ''[Errno 104] Connection reset by peer''),
      setValue 80 (setValue 0 st))"
  by (simp add: lib_with_def reset_transfer_def broken_transfer_run)

lemma plain_transfer_run:
  "run_transfer (urlretrieve plain_lib url file) st = (None, st)"
  by (simp add: plain_lib_def run_transfer_def)

lemma report_txt_steps:
  "extract_media_url (lib_with t) ''https://example.com/file.txt''
     = Inr ''https://example.com/file.txt''"
  "normalize (lib_with t) ''/tmp/report.txt'' ''https://example.com/file.txt''
     = Inr (Path ''/tmp/report.txt'')"
  "extract_media_url plain_lib ''https://example.com/file.txt''
     = Inr ''https://example.com/file.txt''"
  "normalize plain_lib ''/tmp/report.txt'' ''https://example.com/file.txt''
     = Inr (Path ''/tmp/report.txt'')"
  by code_simp+

subsection \<open>Outcomes\<close>




text \<open>
  C6. After a transfer that succeeds the progress bar is set to 0; after one that fails,
  with either kind of error, it keeps the value the last notification gave it.
\<close>

theorem download_progress_after:
  assumes "extract_media_url lib (url_line_edit st) = Inr url"
    and "normalize lib (location_line_edit st) url = Inr location"
    and "run_transfer (urlretrieve lib url location)
           (location_setText [] (url_setText [] st)) = (r, st3)"
  shows "progress_bar (snd (download lib st)) =
           (case r of None \<Rightarrow> 0 | Some e \<Rightarrow> progress_bar st3)"
  unfolding download_after_fetch [OF assms]
  by (simp split: option.splits exn.splits)

theorem download_progress_after_witness:
  "progress_bar (snd (download (lib_with short_transfer)
      (window ''https://example.com/file.txt'' ''/tmp/report.txt''))) = 80
   \<and> progress_bar (snd (download plain_lib
      (window ''https://example.com/file.txt'' ''/tmp/report.txt''))) = 0"
proof -
  let ?st = "window ''https://example.com/file.txt'' ''/tmp/report.txt''"
  have 1: "extract_media_url (lib_with short_transfer) (url_line_edit ?st)
             = Inr ''https://example.com/file.txt''"
    by (simp add: window_def report_txt_steps)
  have 2: "normalize (lib_with short_transfer) (location_line_edit ?st)
             ''https://example.com/file.txt'' = Inr (Path ''/tmp/report.txt'')"
    by (simp add: window_def report_txt_steps)
  have 3: "extract_media_url plain_lib (url_line_edit ?st)
             = Inr ''https://example.com/file.txt''"
    by (simp add: window_def report_txt_steps)
  have 4: "normalize plain_lib (location_line_edit ?st)
             ''https://example.com/file.txt'' = Inr (Path ''/tmp/report.txt'')"
    by (simp add: window_def report_txt_steps)
  show ?thesis
    using download_progress_after [OF 1 2 short_transfer_run]
      download_progress_after [OF 3 4 plain_transfer_run]
    by (simp add: window_def)
qed

text \<open>
  C9. A download that reaches the fetch clears both text fields before the transfer
  begins: of all that it writes to the window, the two \<^verbatim>\<open>setText('')\<close> come first, and
  everything after them, which is every value the transfer gives the bar and every message
  box of this download, writes no text field. So both fields are empty when \<open>download\<close>
  returns, whatever the outcome of the transfer.
\<close>

theorem download_clears_fields:
  assumes "extract_media_url lib (url_line_edit st) = Inr url"
    and "normalize lib (location_line_edit st) url = Inr location"
  shows "fst (download lib st) = None
     \<and> url_line_edit (snd (download lib st)) = []
     \<and> location_line_edit (snd (download lib st)) = []
     \<and> (\<exists>ws. writes (snd (download lib st))
                = writes st @ Url_setText [] # Location_setText [] # ws
           \<and> (\<forall>w \<in> set ws. \<forall>t. w \<noteq> Url_setText t \<and> w \<noteq> Location_setText t)
           \<and> progress_calls (snd (download lib st))
                = progress_calls st @ [v. Progress_setValue v \<leftarrow> ws]
           \<and> dialogs (snd (download lib st)) = dialogs st @ [d. Message_Box d \<leftarrow> ws])"
proof -
  let ?st2 = "location_setText [] (url_setText [] st)"
  obtain r st3 where run: "run_transfer (urlretrieve lib url location) ?st2 = (r, st3)"
    by (cases "run_transfer (urlretrieve lib url location) ?st2")
  from run_transfer_outcome(1) [OF run]
  obtain vs where st3: "st3 = foldl (\<lambda>s v. setValue v s) ?st2 vs" by blast
  have pv: "concat (map (case_ui_write (\<lambda>t. []) (\<lambda>t. []) (\<lambda>v. [v]) (\<lambda>d. [])
      \<circ> Progress_setValue) us) = us" for us
    by (induction us) simp_all
  have pd: "concat (map (case_ui_write (\<lambda>t. []) (\<lambda>t. []) (\<lambda>v. []) (\<lambda>d. [d])
      \<circ> Progress_setValue) us) = []" for us
    by (induction us) simp_all
  have nf: "\<forall>w \<in> set (map Progress_setValue us). \<forall>t. w \<noteq> Url_setText t \<and> w \<noteq> Location_setText t"
    for us by auto
  define end_ws where "end_ws =
    (case r of
       None \<Rightarrow> [Message_Box (Information ''Download Completed''
                  ''The Download Completed Successfully''), Progress_setValue 0]
     | Some (URLError m) \<Rightarrow> [Message_Box (Warning ''Download Error''
                  (''Failed to download the file. Error: '' @ m))]
     | Some e \<Rightarrow> [Message_Box (Warning ''Download Error''
                  (''An error occurred: '' @ exn_str e))])"
  let ?ws = "map Progress_setValue vs @ end_ws"
  let ?fin = "snd (download lib st)"
  have fin: "fst (download lib st) = None" "url_line_edit ?fin = []" "location_line_edit ?fin = []"
    unfolding download_after_fetch [OF assms run] st3
    by (simp_all add: set_values_fields split: option.splits exn.splits)
  have w: "writes ?fin = writes st @ Url_setText [] # Location_setText [] # ?ws"
    unfolding download_after_fetch [OF assms run] st3 end_ws_def
    by (simp add: set_values_fields split: option.splits exn.splits)
  have p: "progress_calls ?fin = progress_calls st @ [v. Progress_setValue v \<leftarrow> ?ws]"
    unfolding download_after_fetch [OF assms run] st3 end_ws_def
    by (simp add: set_values_fields pv split: option.splits exn.splits)
  have d: "dialogs ?fin = dialogs st @ [d. Message_Box d \<leftarrow> ?ws]"
    unfolding download_after_fetch [OF assms run] st3 end_ws_def
    by (simp add: set_values_fields pd split: option.splits exn.splits)
  have n: "\<forall>w \<in> set ?ws. \<forall>t. w \<noteq> Url_setText t \<and> w \<noteq> Location_setText t"
    using nf [of vs] unfolding end_ws_def by (auto split: option.splits exn.splits)
  from fin w p d n show ?thesis by blast
qed

theorem download_clears_fields_witness:
  "url_line_edit (snd (download (lib_with short_transfer)
      (window ''https://example.com/file.txt'' ''/tmp/report.txt''))) = []
   \<and> location_line_edit (snd (download (lib_with short_transfer)
      (window ''https://example.com/file.txt'' ''/tmp/report.txt''))) = []
   \<and> writes (snd (download (lib_with short_transfer)
      (window ''https://example.com/file.txt'' ''/tmp/report.txt''))) =
       [Url_setText [], Location_setText [], Progress_setValue 0, Progress_setValue 80,
        Message_Box (Warning ''Download Error''
          (''Failed to download the file. Error: ''
           @ ''<urlopen error retrieval incomplete: got only 8192 out of 10240 bytes>''))]"
proof -
  let ?st = "window ''https://example.com/file.txt'' ''/tmp/report.txt''"
  have 1: "extract_media_url (lib_with short_transfer) (url_line_edit ?st)
             = Inr ''https://example.com/file.txt''"
    by (simp add: window_def report_txt_steps)
  have 2: "normalize (lib_with short_transfer) (location_line_edit ?st)
             ''https://example.com/file.txt'' = Inr (Path ''/tmp/report.txt'')"
    by (simp add: window_def report_txt_steps)
  have "writes (snd (download (lib_with short_transfer) ?st)) =
       [Url_setText [], Location_setText [], Progress_setValue 0, Progress_setValue 80,
        Message_Box (Warning ''Download Error''
          (''Failed to download the file. Error: ''
           @ ''<urlopen error retrieval incomplete: got only 8192 out of 10240 bytes>''))]"
    unfolding download_after_fetch [OF 1 2 short_transfer_run]
    by (simp add: window_def)
  with download_clears_fields [OF 1 2] show ?thesis by blast
qed

section \<open>Resolving the URL\<close>

lemma collect_lookup:
  "collect ps d k =
     (case d k of
        None \<Rightarrow> (case map snd (filter (\<lambda>p. fst p = k) ps) of [] \<Rightarrow> None | v # vs \<Rightarrow> Some (v # vs))
      | Some ws \<Rightarrow> Some (ws @ map snd (filter (\<lambda>p. fst p = k) ps)))"
proof (induction ps arbitrary: d)
  case Nil
  then show ?case by (simp split: option.splits)
next
  case (Cons p ps)
  obtain n v where p: "p = (n, v)" by (cases p)
  show ?case
    unfolding p by (simp add: Cons.IH split: option.splits list.splits)
qed

lemma parse_qs_first:
  "(case parse_qs lib qs k of None \<Rightarrow> None | Some [] \<Rightarrow> None | Some (v # vs) \<Rightarrow> Some v)
     = map_of (parse_qsl lib qs) k"
  "parse_qs lib qs k \<noteq> Some []"
proof -
  have m: "map_of ps k = (case map snd (filter (\<lambda>p. fst p = k) ps) of [] \<Rightarrow> None | v # vs \<Rightarrow> Some v)" for ps :: "(string \<times> string) list"
    by (induction ps) auto
  show "(case parse_qs lib qs k of None \<Rightarrow> None | Some [] \<Rightarrow> None | Some (v # vs) \<Rightarrow> Some v)
     = map_of (parse_qsl lib qs) k"
    by (simp add: parse_qs_def collect_lookup m split: list.splits)
  show "parse_qs lib qs k \<noteq> Some []"
    by (simp add: parse_qs_def collect_lookup split: list.splits)
qed





text \<open>
  C8. When the query string has several fields named \<^verbatim>\<open>mediaurl\<close> with a value, the
  result is the value of the first of them.
\<close>

theorem extract_media_url_first_of_many:
  assumes "urlparse lib url = Inr u"
    and "filter (\<lambda>p. fst p = ''mediaurl'') (parse_qsl lib (query u)) = (n1, v1) # (n2, v2) # rest"
    and "v1 \<noteq> []"
  shows "extract_media_url lib url = Inr v1"
proof -
  have "map_of ps k = (case filter (\<lambda>p. fst p = k) ps of [] \<Rightarrow> None | p # _ \<Rightarrow> Some (snd p))"
    for ps :: "(string \<times> string) list" and k
    by (induction ps) auto
  with assms(2) have "map_of (parse_qsl lib (query u)) ''mediaurl'' = Some v1" by simp
  with parse_qs_first [of lib "query u" "''mediaurl''"] assms(1,3) show ?thesis
    by (auto simp add: extract_media_url_def split: option.splits list.splits)
qed

theorem extract_media_url_first_of_many_witness:
  "extract_media_url plain_lib ''http://h/?mediaurl=http://a/1.bin&x=y&mediaurl=http://b/2.bin''
     = Inr ''http://a/1.bin''"
proof -
  have 1: "urlparse plain_lib ''http://h/?mediaurl=http://a/1.bin&x=y&mediaurl=http://b/2.bin''
    = Inr \<lparr>scheme = ''http'', netloc = ''h'', path = ''/'', params = [],
           query = ''mediaurl=http://a/1.bin&x=y&mediaurl=http://b/2.bin'', fragment = []\<rparr>"
    by code_simp
  have 2: "filter (\<lambda>p. fst p = ''mediaurl'')
       (parse_qsl plain_lib
          (query \<lparr>scheme = ''http'', netloc = ''h'', path = ''/'', params = [],
             query = ''mediaurl=http://a/1.bin&x=y&mediaurl=http://b/2.bin'', fragment = []\<rparr>))
     = (''mediaurl'', ''http://a/1.bin'') # (''mediaurl'', ''http://b/2.bin'') # []"
    by code_simp
  have 3: "''http://a/1.bin'' \<noteq> []" by simp
  show ?thesis
    using extract_media_url_first_of_many [OF 1 2 3] .
qed

section \<open>The destination path\<close>

lemma split_on_nonempty: "split_on c s \<noteq> []"
  by (induction s) (auto split: list.splits)

lemma split_on_no_sep: "x \<in> set (split_on c s) \<Longrightarrow> c \<notin> set x"
proof (induction s arbitrary: x)
  case Nil
  then show ?case by simp
next
  case (Cons a s)
  show ?case
  proof (cases "a = c")
    case True
    with Cons show ?thesis by auto
  next
    case False
    obtain y ys where sp: "split_on c s = y # ys"
      using split_on_nonempty [of c s] by (cases "split_on c s") auto
    with False Cons.prems have "x = a # y \<or> x \<in> set ys" by auto
    with False sp Cons.IH [of y] Cons.IH [of x] show ?thesis by auto
  qed
qed

text \<open>The name of a path made from a string: the last component, if there is one.\<close>

lemma path_name_Path:
  "path_name (Path s) =
     (case filter (\<lambda>x. x \<noteq> [] \<and> x \<noteq> ''.'') (split_on CHR ''/'' (snd (splitroot s))) of
        [] \<Rightarrow> []
      | x # xs \<Rightarrow> last (x # xs))"
  by (cases "splitroot s") (auto simp: Path_def path_name_def split: list.splits)

lemma path_name_Path_no_slash: "CHR ''/'' \<notin> set (path_name (Path s))"
proof -
  let ?ps = "filter (\<lambda>x. x \<noteq> [] \<and> x \<noteq> ''.'') (split_on CHR ''/'' (snd (splitroot s)))"
  show ?thesis
  proof (cases ?ps)
    case Nil
    then show ?thesis by (simp add: path_name_Path)
  next
    case (Cons x xs)
    then have "last (x # xs) \<in> set ?ps" by (metis last_in_set list.distinct(1))
    then have "last (x # xs) \<in> set (split_on CHR ''/'' (snd (splitroot s)))" by simp
    from split_on_no_sep [OF this] Cons show ?thesis by (simp add: path_name_Path)
  qed
qed

text \<open>A suffix is empty, or a dot followed by at least one character of the name, none a dot.\<close>

lemma path_suffix_cases:
  "path_suffix p = [] \<or>
   (\<exists>stem t. path_name p = stem @ CHR ''.'' # t \<and> stem \<noteq> [] \<and> t \<noteq> []
       \<and> CHR ''.'' \<notin> set t \<and> path_suffix p = CHR ''.'' # t)"
proof (cases "CHR ''.'' \<in> set (path_name p)")
  case False
  then show ?thesis by (simp add: path_suffix_def)
next
  case True
  let ?name = "path_name p"
  let ?t = "takeWhile (\<lambda>c. c \<noteq> CHR ''.'') (rev ?name)"
  let ?r = "dropWhile (\<lambda>c. c \<noteq> CHR ''.'') (rev ?name)"
  from True have "?r \<noteq> []" by (simp add: dropWhile_eq_Nil_conv)
  moreover from this have "hd ?r = CHR ''.''" using hd_dropWhile [of "\<lambda>c. c \<noteq> CHR ''.''" "rev ?name"] by simp
  ultimately obtain r' where r: "?r = CHR ''.'' # r'" by (cases ?r) auto
  have "rev ?name = ?t @ ?r" by simp
  then have "?name = rev ?r @ rev ?t" by (metis rev_append rev_rev_ident)
  with r have name: "?name = rev r' @ CHR ''.'' # rev ?t" by simp
  have i_eq: "(if CHR ''.'' \<in> set ?name then int (length ?name) - int (length ?t) - 1 else - 1)
      = int (length r')"
    using True by (subst (2) name) simp
  have n_eq: "int (length ?name) - 1 = int (length r') + int (length ?t)"
    by (subst name) simp
  have sfx: "path_suffix p =
      (if 0 < int (length r') \<and> int (length r') < int (length r') + int (length ?t)
       then drop (length r') ?name else [])"
    unfolding path_suffix_def Let_def i_eq n_eq by simp
  have dr: "drop (length r') ?name = CHR ''.'' # rev ?t"
    by (subst name) simp
  have nodot: "CHR ''.'' \<notin> set (rev ?t)"
    using set_takeWhileD [of "CHR ''.''" "\<lambda>c. c \<noteq> CHR ''.''" "rev ?name"] by auto
  show ?thesis
  proof (cases "r' \<noteq> [] \<and> ?t \<noteq> []")
    case False
    then have "path_suffix p = []" unfolding sfx by auto
    then show ?thesis by simp
  next
    case c: True
    then have "path_suffix p = CHR ''.'' # rev ?t"
      unfolding sfx dr by simp
    moreover have "?name = rev r' @ CHR ''.'' # rev ?t" by (rule name)
    moreover have "rev r' \<noteq> []" "rev ?t \<noteq> []" using c by simp_all
    ultimately show ?thesis using nodot by blast
  qed
qed

lemma path_suffix_valid:
  "CHR ''/'' \<notin> set (path_name p) \<Longrightarrow>
     CHR ''/'' \<notin> set (path_suffix p)
     \<and> \<not> ((path_suffix p \<noteq> [] \<and> take 1 (path_suffix p) \<noteq> ''.'') \<or> path_suffix p = ''.'')"
  using path_suffix_cases [of p] by auto






lemma path_suffix_empty_name: "path_name p = [] \<Longrightarrow> path_suffix p = []"
  by (simp add: path_suffix_def)

lemma download_pre_raise:
  "extract_media_url lib (url_line_edit st) = Inl e \<Longrightarrow> download lib st = (Some e, st)"
  "extract_media_url lib (url_line_edit st) = Inr url \<Longrightarrow>
   normalize lib (location_line_edit st) url = Inl e \<Longrightarrow> download lib st = (Some e, st)"
  by (simp_all add: download_def)





section \<open>Errors before the handlers\<close>

text \<open>
  C10. The URL is resolved and the destination is made before \<^verbatim>\<open>try\<close>. When the text
  of the location field has no last component (the empty string, a lone slash or dot),
  \<^verbatim>\<open>with_suffix\<close> raises a \<^verbatim>\<open>ValueError\<close> that leaves \<open>download\<close>: the window is as it
  was, no message box is shown and the fields keep their text.
\<close>

theorem download_raises_before_try:
  assumes "extract_media_url lib (url_line_edit st) = Inr url"
    and "urlparse lib url = Inr u"
    and "path_name (Path (location_line_edit st)) = []"
  shows "download lib st = (Some (ValueError ''%r has an empty name''), st)"
proof -
  let ?p = "Path (location_line_edit st)" and ?ext = "path_suffix (Path (path u))"
  from assms(3) have "\<not> has_extension ?p"
    by (simp add: has_extension_def path_suffix_empty_name)
  with assms(2) have "normalize lib (location_line_edit st) url = with_suffix ?p ?ext"
    by (simp add: normalize_def)
  moreover from path_suffix_valid [OF path_name_Path_no_slash, of "path u"] assms(3)
  have "with_suffix ?p ?ext = Inl (ValueError ''%r has an empty name'')"
    by (auto simp add: with_suffix_def)
  ultimately show ?thesis
    using assms(1) by (simp add: download_pre_raise)
qed

theorem download_raises_before_try_witness:
  "download plain_lib (window ''http://a/b.bin'' [])
     = (Some (ValueError ''%r has an empty name''), window ''http://a/b.bin'' [])"
proof -
  have 1: "extract_media_url plain_lib (url_line_edit (window ''http://a/b.bin'' []))
             = Inr ''http://a/b.bin''"
    by code_simp
  have 2: "urlparse plain_lib ''http://a/b.bin''
             = Inr \<lparr>scheme = ''http'', netloc = ''a'', path = ''/b.bin'', params = [],
                    query = [], fragment = []\<rparr>"
    by code_simp
  have 3: "path_name (Path (location_line_edit (window ''http://a/b.bin'' []))) = []"
    by code_simp
  show ?thesis using download_raises_before_try [OF 1 2 3] .
qed

end
